theory Spec2Isabelle
  imports Main "HOL-Library.AList" "HOL-Library.Log_Nat"
begin

section \<open>JavaScript numbers\<close>

text \<open>
  A \<open>number\<close> is an IEEE 754 double: \<open>NaN\<close>, the two infinities, the negative zero, or a
  finite value, held as the rational it denotes (\<open>Fin 0\<close> is the positive zero). The cache
  tests numbers for truthiness, adds the TTL to the time and compares expiry times with the
  time, so these three operations are modelled. \<open>NaN\<close> and both zeros are falsy.
\<close>

datatype jsnum = NaN | PosInf | NegInf | NegZero | Fin rat

fun num_truthy :: "jsnum \<Rightarrow> bool" where
  "num_truthy NaN = False"
| "num_truthy NegZero = False"
| "num_truthy (Fin x) = (x \<noteq> 0)"
| "num_truthy PosInf = True"
| "num_truthy NegInf = True"

fun finVal :: "jsnum \<Rightarrow> rat" where
  "finVal (Fin x) = x"
| "finVal n = 0"

text \<open>
  Rounding to the nearest double, ties to the even significand. \<open>flog2 x\<close> is the binary
  exponent \<open>\<lfloor>log\<^sub>2 x\<rfloor>\<close> of a positive \<open>x\<close>; the unit in the last place of a double of that
  exponent is \<open>2\<^bsup>e\<^esup>\<close> with \<open>e = flog2 x - 52\<close>, and never less than \<open>2\<^bsup>-1074\<^esup>\<close> (the
  subnormal numbers). A result of magnitude \<open>2\<^bsup>1024\<^esup>\<close> overflows to an infinity.
\<close>

definition flog2 :: "rat \<Rightarrow> int" where
  "flog2 x = (if 1 \<le> x then bitlen \<lfloor>x\<rfloor> - 1 else - bitlen (\<lceil>1 / x\<rceil> - 1))"

definition roundHalfEven :: "rat \<Rightarrow> int" where
  "roundHalfEven q =
     (let f = \<lfloor>q\<rfloor>; d = q - of_int f
      in if d < 1 / 2 then f else if 1 / 2 < d then f + 1 else if even f then f else f + 1)"

definition round64 :: "rat \<Rightarrow> jsnum" where
  "round64 x =
     (if x = 0 then Fin 0
      else
        let e = max (flog2 \<bar>x\<bar> - 52) (- 1074);
            y = of_int (roundHalfEven (x / 2 powi e)) * 2 powi e
        in if 2 ^ 1024 \<le> \<bar>y\<bar> then (if 0 < x then PosInf else NegInf)
           else if y = 0 then (if 0 < x then Fin 0 else NegZero)
           else Fin y)"

text \<open>\<open>a + b\<close>, \<open>a < b\<close> and \<open>a <= b\<close> on numbers. A comparison with \<open>NaN\<close> is false.\<close>

definition jsAdd :: "jsnum \<Rightarrow> jsnum \<Rightarrow> jsnum" where
  "jsAdd a b =
     (if a = NaN \<or> b = NaN then NaN
      else if a = PosInf then (if b = NegInf then NaN else PosInf)
      else if a = NegInf then (if b = PosInf then NaN else NegInf)
      else if b = PosInf then PosInf
      else if b = NegInf then NegInf
      else if a = NegZero \<and> b = NegZero then NegZero
      else round64 (finVal a + finVal b))"

definition jsLess :: "jsnum \<Rightarrow> jsnum \<Rightarrow> bool" where
  "jsLess a b =
     (a \<noteq> NaN \<and> b \<noteq> NaN \<and>
      (if a = PosInf then False
       else if b = PosInf then True
       else if b = NegInf then False
       else if a = NegInf then True
       else finVal a < finVal b))"

definition jsLessEq :: "jsnum \<Rightarrow> jsnum \<Rightarrow> bool" where
  "jsLessEq a b = (a \<noteq> NaN \<and> b \<noteq> NaN \<and> \<not> jsLess b a)"

text \<open>
  \<open>Date.now()\<close> is a whole number of milliseconds, of magnitude at most \<open>8.64 \<times> 10\<^bsup>15\<^esup>\<close>,
  which a double holds exactly.
\<close>

definition timeValue :: "int \<Rightarrow> jsnum" where
  "timeValue now = Fin (of_int now)"

text \<open>
  \<open>x || d\<close> for an optional number \<open>x\<close>: \<open>undefined\<close>, \<open>NaN\<close> and the zeros are falsy and
  give \<open>d\<close>.
\<close>

definition num_or :: "jsnum option \<Rightarrow> jsnum \<Rightarrow> jsnum" where
  "num_or x d = (case x of None \<Rightarrow> d | Some n \<Rightarrow> if num_truthy n then n else d)"

section \<open>JavaScript values\<close>

text \<open>
  Cached payloads have the TypeScript type \<open>unknown\<close>. The cache never inspects a payload
  except for its truthiness (\<open>cacheItem?.value && ...\<close> in \<open>getSync\<close>, \<open>if (result)\<close> in
  \<open>get\<close>), so a payload is a JavaScript value with the language's truthiness. The falsy
  values are \<open>undefined\<close>, \<open>null\<close>, \<open>false\<close>, the numbers \<open>0\<close>, \<open>-0\<close> and \<open>NaN\<close>, the bigint
  \<open>0n\<close>, the empty string and, in a browser, the object \<open>document.all\<close>. Objects, arrays,
  functions and promises are references \<open>JObj\<close>.
\<close>

datatype jsval =
    JUndefined | JNull | JBool bool | JNum jsnum | JBigInt int | JStr string
  | JSymbol nat | JObj nat | JDocumentAll

fun truthy :: "jsval \<Rightarrow> bool" where
  "truthy JUndefined = False"
| "truthy JNull = False"
| "truthy (JBool b) = b"
| "truthy (JNum n) = num_truthy n"
| "truthy (JBigInt i) = (i \<noteq> 0)"
| "truthy (JStr s) = (s \<noteq> [])"
| "truthy (JSymbol s) = True"
| "truthy (JObj r) = True"
| "truthy JDocumentAll = False"

section \<open>Types of \<open>local-cache.ts\<close>\<close>

record LocalCacheOptions =
  disabled :: "bool option"
  defaultTTLMs :: "jsnum option"
  cleanCacheIntervalMs :: "jsnum option"
  maxNumberOfCachedKeys :: "jsnum option"

record LocalCacheItem =
  itemValue :: jsval
  expiredOn :: jsnum

definition DEFAULT_TTL_MS :: jsnum where
  "DEFAULT_TTL_MS = Fin 5000"

definition DEFAULT_CLEAN_CACHE_INTERVAL_MS :: jsnum where
  "DEFAULT_CLEAN_CACHE_INTERVAL_MS = Fin 30000"

text \<open>
  A waiter is the \<open>resolve\<close> function of the promise that a call of \<open>get\<close> returns; it is
  identified by a number. Every call of \<open>get\<close> makes a new promise, so no two calls share
  a \<open>resolve\<close>.
\<close>

type_synonym resolver = nat

text \<open>
  The instance. \<open>cache\<close> is a \<open>Map\<close>, which keeps its keys in insertion order: an association
  list, updated in place or extended at the end by \<open>AList.update\<close>. \<open>lockCallbacks\<close> is a
  plain object \<open>{}\<close> used as a dictionary: the field holds its own properties.
\<close>

record LocalCache =
  options :: "LocalCacheOptions option"
  ttl :: jsnum
  cache :: "(string \<times> LocalCacheItem) list"
  lockCallbacks :: "string \<rightharpoonup> resolver list"

text \<open>
  Reading \<open>this.lockCallbacks[key]\<close> looks the key up in the object's own properties and
  then in its prototype, \<open>Object.prototype\<close>, whose members are listed below. An inherited
  member is a function (or, for \<open>__proto__\<close>, the prototype object): it is truthy and has no
  \<open>push\<close> and no \<open>forEach\<close>.
\<close>

definition objectPrototypeKeys :: "string list" where
  "objectPrototypeKeys =
     [''constructor'', ''hasOwnProperty'', ''isPrototypeOf'', ''propertyIsEnumerable'',
      ''toLocaleString'', ''toString'', ''valueOf'', ''__proto__'',
      ''__defineGetter__'', ''__defineSetter__'', ''__lookupGetter__'', ''__lookupSetter__'']"

datatype lock_lookup = LUndefined | LCallbacks "resolver list" | LInherited

definition lockLookup :: "(string \<rightharpoonup> resolver list) \<Rightarrow> string \<Rightarrow> lock_lookup" where
  "lockLookup m key =
     (case m key of
        Some callbacks \<Rightarrow> LCallbacks callbacks
      | None \<Rightarrow> if key \<in> set objectPrototypeKeys then LInherited else LUndefined)"

datatype error = MaxLimitReach | TypeError

text \<open>
  \<open>set\<close> either returns, having made the calls \<open>i(value)\<close> listed in order, or throws.
  A throw does not undo the mutations made before it, so every operation returns the
  instance as well.
\<close>

datatype set_result = Returned "(resolver \<times> jsval) list" | Threw error

text \<open>
  Inside the executor of the promise it returns, \<open>get\<close> calls \<open>resolve(x)\<close>, or stores
  \<open>resolve\<close> in \<open>lockCallbacks\<close> and leaves the promise pending, or throws, which rejects the
  promise. \<open>Resolved x\<close> records the call \<open>resolve(x)\<close>: it fulfils the promise with \<open>x\<close>,
  unless \<open>x\<close> is an object with a \<open>then\<close> method, whose outcome the promise then takes.
\<close>

datatype get_result = Resolved jsval | Pending | Rejected error

section \<open>The class\<close>

text \<open>
  The constructor: \<open>this.ttl = options?.defaultTTLMs || DEFAULT_TTL_MS\<close>, an empty \<open>Map\<close> and
  an empty object. The interval of the timer that runs \<open>clear\<close> is computed the same way; a
  run of the timer is a call of \<open>clear\<close> at some time.
\<close>

definition new_LocalCache :: "LocalCacheOptions option \<Rightarrow> LocalCache" where
  "new_LocalCache opts =
     \<lparr>options = opts,
      ttl = num_or (Option.bind opts defaultTTLMs) DEFAULT_TTL_MS,
      cache = [],
      lockCallbacks = Map.empty\<rparr>"

definition cleanInterval :: "LocalCacheOptions option \<Rightarrow> jsnum" where
  "cleanInterval opts =
     num_or (Option.bind opts cleanCacheIntervalMs) DEFAULT_CLEAN_CACHE_INTERVAL_MS"

text \<open>\<open>this.options?.disabled\<close> as a condition, and \<open>this.cache.size\<close>.\<close>

definition isDisabled :: "LocalCache \<Rightarrow> bool" where
  "isDisabled st = (Option.bind (options st) disabled = Some True)"

definition size_cache :: "LocalCache \<Rightarrow> int" where
  "size_cache st = int (length (cache st))"

text \<open>
  One callback of \<open>clear\<close>'s \<open>forEach\<close>, on the entry \<open>(key, entry)\<close>, with the counter
  \<open>cleanCount\<close>. \<open>!this.lockCallbacks[key]\<close> holds for \<open>undefined\<close> only.
\<close>

definition clearStep ::
  "int \<Rightarrow> string \<times> LocalCacheItem \<Rightarrow> nat \<times> LocalCache \<Rightarrow> nat \<times> LocalCache" where
  "clearStep now = (\<lambda>(key, entry) (cleanCount, st).
     if lockLookup (lockCallbacks st) key = LUndefined then
       if jsLessEq (expiredOn entry) (timeValue now)
       then (cleanCount + 1, st\<lparr>cache := AList.delete key (cache st)\<rparr>)
       else (cleanCount, st)
     else (cleanCount, st))"

definition clearLoop :: "int \<Rightarrow> LocalCache \<Rightarrow> nat \<times> LocalCache" where
  "clearLoop now st = fold (clearStep now) (cache st) (0, st)"

definition clear :: "int \<Rightarrow> LocalCache \<Rightarrow> LocalCache" where
  "clear now st = snd (clearLoop now st)"

text \<open>
  \<open>unlockKey\<close>: nothing for \<open>undefined\<close>; for an array, the calls \<open>i(value)\<close> in the order of
  the array and then \<open>delete this.lockCallbacks[key]\<close>; for an inherited member,
  \<open>callbacks.forEach\<close> is not a function.
\<close>

definition unlockKey :: "string \<Rightarrow> jsval \<Rightarrow> LocalCache \<Rightarrow> set_result \<times> LocalCache" where
  "unlockKey key v st =
     (case lockLookup (lockCallbacks st) key of
        LUndefined \<Rightarrow> (Returned [], st)
      | LCallbacks callbacks \<Rightarrow>
          (Returned (map (\<lambda>i. (i, v)) callbacks),
           st\<lparr>lockCallbacks := (lockCallbacks st)(key := None)\<rparr>)
      | LInherited \<Rightarrow> (Threw TypeError, st))"

text \<open>\<open>getSync\<close>: the test is \<open>cacheItem?.value && cacheItem.expiredOn > Date.now()\<close>.\<close>

definition getSync :: "string \<Rightarrow> int \<Rightarrow> LocalCache \<Rightarrow> jsval" where
  "getSync key now st =
     (if \<not> isDisabled st then
        (case map_of (cache st) key of
           None \<Rightarrow> JNull
         | Some cacheItem \<Rightarrow>
             if truthy (itemValue cacheItem) \<and> jsLess (timeValue now) (expiredOn cacheItem)
             then itemValue cacheItem else JNull)
      else JNull)"

text \<open>
  In \<open>set\<close>: \<open>const effectiveTtl = ttl || this.ttl\<close>, and the condition of admission
  \<open>!maxNumberOfCachedKeys || this.size() < maxNumberOfCachedKeys\<close>. The entry stored
  expires at \<open>Date.now() + effectiveTtl\<close>, a sum of doubles.
\<close>

definition effectiveTtl :: "jsnum option \<Rightarrow> LocalCache \<Rightarrow> jsnum" where
  "effectiveTtl t st = num_or t (ttl st)"

definition admits :: "LocalCache \<Rightarrow> bool" where
  "admits st =
     (case Option.bind (options st) maxNumberOfCachedKeys of
        None \<Rightarrow> True
      | Some m \<Rightarrow> \<not> num_truthy m \<or> jsLess (Fin (of_int (size_cache st))) m)"

definition set_cached ::
  "string \<Rightarrow> jsval \<Rightarrow> jsnum option \<Rightarrow> int \<Rightarrow> LocalCache \<Rightarrow> set_result \<times> LocalCache" where
  "set_cached key v t now st =
     (if \<not> isDisabled st then
        if admits st then
          unlockKey key v
            (st\<lparr>cache := AList.update key
                   \<lparr>itemValue = v, expiredOn = jsAdd (timeValue now) (effectiveTtl t st)\<rparr>
                   (cache st)\<rparr>)
        else (Threw MaxLimitReach, st)
      else (Returned [], st))"

text \<open>
  \<open>get\<close>, with the identity \<open>resolve\<close> of its promise. An exception in the executor
  (\<open>push\<close> on an inherited member) rejects the promise.
\<close>

definition get_cached ::
  "string \<Rightarrow> jsval \<Rightarrow> resolver \<Rightarrow> int \<Rightarrow> LocalCache \<Rightarrow> get_result \<times> LocalCache" where
  "get_cached key waitIfSetInProcess resolve now st =
     (if isDisabled st then (Resolved JNull, st)
      else
        let result = getSync key now st in
        if truthy result then (Resolved result, st)
        else if truthy waitIfSetInProcess then
          (case lockLookup (lockCallbacks st) key of
             LUndefined \<Rightarrow>
               (Resolved result, st\<lparr>lockCallbacks := (lockCallbacks st)(key \<mapsto> [])\<rparr>)
           | LCallbacks callbacks \<Rightarrow>
               (Pending, st\<lparr>lockCallbacks := (lockCallbacks st)(key \<mapsto> callbacks @ [resolve])\<rparr>)
           | LInherited \<Rightarrow> (Rejected TypeError, st))
        else (Resolved JNull, st))"

section \<open>Histories of calls\<close>

text \<open>
  The instance is used from one thread: calls of \<open>set\<close> and \<open>get\<close> and runs of the timer's
  \<open>clear\<close> happen one after the other, each at its own reading of \<open>Date.now()\<close>. A history
  is a list of such calls. Running it yields the final instance and, in order, every call
  of a \<open>resolve\<close> function made on the way: the calls \<open>i(value)\<close> of \<open>unlockKey\<close> and the
  calls \<open>resolve(x)\<close> that \<open>get\<close> makes for its own promise. Nothing else in the class calls
  a \<open>resolve\<close>.
\<close>

datatype event = ESet string jsval "jsnum option" | EGet string jsval resolver | EClear

fun step :: "int \<Rightarrow> event \<Rightarrow> LocalCache \<Rightarrow> (resolver \<times> jsval) list \<times> LocalCache" where
  "step now (ESet key v t) st =
     (case set_cached key v t now st of
        (Returned calls, st') \<Rightarrow> (calls, st')
      | (Threw e, st') \<Rightarrow> ([], st'))"
| "step now (EGet key w r) st =
     (case get_cached key w r now st of
        (Resolved x, st') \<Rightarrow> ([(r, x)], st')
      | (Pending, st') \<Rightarrow> ([], st')
      | (Rejected e, st') \<Rightarrow> ([], st'))"
| "step now EClear st = ([], clear now st)"

fun run :: "(int \<times> event) list \<Rightarrow> LocalCache \<Rightarrow> (resolver \<times> jsval) list \<times> LocalCache" where
  "run [] st = ([], st)"
| "run ((now, e) # evs) st =
     (case step now e st of
        (calls, st') \<Rightarrow> (case run evs st' of (calls', st'') \<Rightarrow> (calls @ calls', st'')))"

fun setsKey :: "string \<Rightarrow> event \<Rightarrow> bool" where
  "setsKey key (ESet k v t) = (k = key)"
| "setsKey key (EGet k w r) = False"
| "setsKey key EClear = False"

fun getsWith :: "resolver \<Rightarrow> event \<Rightarrow> bool" where
  "getsWith r (ESet k v t) = False"
| "getsWith r (EGet k w r') = (r' = r)"
| "getsWith r EClear = False"

text \<open>
  \<open>waitsOnlyFor st r key\<close>: the \<open>resolve\<close> function \<open>r\<close> is stored under no key but \<open>key\<close>. A
  \<open>resolve\<close> belongs to the one call of \<open>get\<close> that made its promise, so it is stored under
  the key of that call or not at all.
\<close>

definition waitsOnlyFor :: "LocalCache \<Rightarrow> resolver \<Rightarrow> string \<Rightarrow> bool" where
  "waitsOnlyFor st r key = (\<forall>k callbacks. lockCallbacks st k = Some callbacks \<and> r \<in> set callbacks
     \<longrightarrow> k = key)"

text \<open>Option tables used as examples: no option given, a cap of one key, disabled.\<close>

definition noOptions :: LocalCacheOptions where
  "noOptions =
     \<lparr>disabled = None, defaultTTLMs = None, cleanCacheIntervalMs = None,
      maxNumberOfCachedKeys = None\<rparr>"

definition capOne :: LocalCacheOptions where
  "capOne = noOptions\<lparr>maxNumberOfCachedKeys := Some (Fin 1)\<rparr>"

definition disabledOptions :: LocalCacheOptions where
  "disabledOptions = noOptions\<lparr>disabled := Some True\<rparr>"

text \<open>
  An instance in use, as an example. \<open>b\<close> was written at time 0 with a TTL of 10 ms; after
  its expiry a producer and the waiters 7 and 8 asked for \<open>b\<close>, and a producer and the
  waiter 2 asked for \<open>a\<close>. So \<open>b\<close> has an entry and a registration \<open>[7, 8]\<close>, and \<open>a\<close> has the
  registration \<open>[2]\<close>.
\<close>

definition busyCache :: LocalCache where
  "busyCache =
     snd (run [(0, ESet ''b'' (JStr ''vb'') (Some (Fin 10))),
               (20, EGet ''b'' (JBool True) 6), (21, EGet ''b'' (JBool True) 7),
               (22, EGet ''b'' (JBool True) 8), (23, EGet ''a'' (JBool True) 1),
               (24, EGet ''a'' (JBool True) 2)]
            (new_LocalCache None))"

section \<open>Facts about numbers\<close>

lemma roundHalfEven_int: "q \<in> \<int> \<Longrightarrow> of_int (roundHalfEven q) = q"
  by (auto simp: roundHalfEven_def Ints_def)

lemma flog2_int_less:
  assumes "1 \<le> m" and "m < 2 ^ 53"
  shows "flog2 (of_int m) \<le> 52"
proof -
  have "bitlen m \<le> 53" using assms by (simp add: bitlen_le_iff_power)
  then show ?thesis using assms by (simp add: flog2_def)
qed

text \<open>
  \<open>flog2\<close> is the binary exponent, and \<open>roundHalfEven\<close> moves a number by at most one
  half.
\<close>

lemma flog2_bounds:
  assumes "0 < x"
  shows "2 powi flog2 x \<le> x \<and> x < 2 powi (flog2 x + 1)"
proof (cases "1 \<le> x")
  case True
  define n where "n = \<lfloor>x\<rfloor>"
  have n: "1 \<le> n" using True by (simp add: n_def)
  then have pos: "0 < n" by simp
  define k where "k = nat (bitlen n - 1)"
  from bitlen_bounds [OF pos] have lo: "2 ^ k \<le> n" and hi: "n < 2 ^ nat (bitlen n)"
    by (simp_all add: k_def)
  have b1: "1 \<le> bitlen n" using pos bitlen_eq_zero_iff [of n] bitlen_nonneg [of n] by linarith
  then have kk: "nat (bitlen n) = Suc k" "flog2 x = int k"
    using True by (simp_all add: k_def flog2_def n_def)
  have "(2::rat) ^ k \<le> of_int n" using lo by (metis of_int_le_iff of_int_numeral of_int_power)
  also have "\<dots> \<le> x" by (simp add: n_def)
  finally have 1: "2 powi flog2 x \<le> x" by (simp add: kk)
  have "n + 1 \<le> 2 ^ Suc k" using hi by (simp add: kk)
  then have "(of_int (n + 1) :: rat) \<le> 2 ^ Suc k"
    by (metis of_int_le_iff of_int_numeral of_int_power)
  moreover have "x < of_int (n + 1)" unfolding n_def by linarith
  ultimately have "x < 2 ^ Suc k" by linarith
  then have 2: "x < 2 powi (flog2 x + 1)"
    by (simp add: kk power_int_def nat_add_distrib)
  from 1 2 show ?thesis ..
next
  case False
  define y where "y = 1 / x"
  have y: "1 < y" using False assms by (simp add: y_def)
  define m where "m = \<lceil>y\<rceil> - 1"
  have m: "1 \<le> m" using y unfolding m_def by linarith
  then have pos: "0 < m" by simp
  define b where "b = nat (bitlen m)"
  have b1: "1 \<le> bitlen m" using pos bitlen_eq_zero_iff [of m] bitlen_nonneg [of m] by linarith
  from bitlen_bounds [OF pos] have lo: "2 ^ (b - 1) \<le> m" and hi: "m < 2 ^ b"
    using b1 by (simp_all add: b_def nat_diff_distrib)
  have fl: "flog2 x = - int b" using False b1 by (simp add: flog2_def m_def y_def b_def)
  have "m + 1 \<le> 2 ^ b" using hi by simp
  then have "(of_int (m + 1) :: rat) \<le> 2 ^ b"
    by (metis of_int_le_iff of_int_numeral of_int_power)
  moreover have "y \<le> of_int (m + 1)" unfolding m_def by simp
  ultimately have "y \<le> 2 ^ b" by linarith
  then have "1 / 2 ^ b \<le> x"
    using assms unfolding y_def by (simp add: field_simps)
  moreover have "(2::rat) powi (- int b) = 1 / 2 ^ b"
    by (simp add: power_int_minus field_simps)
  ultimately have 1: "2 powi flog2 x \<le> x" by (simp only: fl)
  have "(2::rat) ^ (b - 1) \<le> of_int m" using lo by (metis of_int_le_iff of_int_numeral of_int_power)
  moreover have "of_int m < y" unfolding m_def by linarith
  ultimately have "2 ^ (b - 1) < y" by linarith
  then have "x < 1 / 2 ^ (b - 1)"
    using assms unfolding y_def by (simp add: field_simps)
  moreover have "flog2 x + 1 = - int (b - 1)" using b1 by (simp add: fl b_def)
  moreover have "(2::rat) powi (- int (b - 1)) = 1 / 2 ^ (b - 1)"
    by (simp add: power_int_minus field_simps)
  ultimately have 2: "x < 2 powi (flog2 x + 1)" by simp
  from 1 2 show ?thesis ..
qed

lemma roundHalfEven_near: "\<bar>of_int (roundHalfEven q) - q\<bar> \<le> 1 / 2"
  unfolding roundHalfEven_def Let_def by (auto simp: abs_if) linarith+

text \<open>A whole number of magnitude below \<open>2\<^bsup>53\<^esup>\<close> is a double: rounding leaves it alone.\<close>

lemma round64_exact:
  assumes "x \<in> \<int>" and "\<bar>x\<bar> < 2 ^ 53"
  shows "round64 x = Fin x"
proof (cases "x = 0")
  case True
  then show ?thesis by (simp add: round64_def)
next
  case False
  from assms(1) obtain s :: int where s: "x = of_int s" by (auto simp: Ints_def)
  define m where "m = \<bar>s\<bar>"
  have m: "1 \<le> m" "m < 2 ^ 53" "\<bar>x\<bar> = of_int m"
    using False assms(2) s unfolding m_def
    by (auto simp flip: of_int_abs of_int_power simp: of_int_less_iff)
  define e where "e = max (flog2 \<bar>x\<bar> - 52) (- 1074)"
  have e: "e \<le> 0" using flog2_int_less [OF m(1,2)] by (simp add: e_def m(3))
  define k where "k = nat (- e)"
  have pe: "(2::rat) powi e = 1 / 2 ^ k"
    using e by (simp add: k_def power_int_def field_simps)
  have "x / 2 powi e = of_int (s * 2 ^ k)" by (simp add: pe s)
  then have "x / 2 powi e \<in> \<int>" by (metis Ints_of_int)
  then have y: "of_int (roundHalfEven (x / 2 powi e)) * 2 powi e = x"
    by (simp add: roundHalfEven_int pe)
  have "\<bar>x\<bar> < 2 ^ 1024" using assms(2) by (rule less_trans) simp
  then show ?thesis
    using False y by (simp add: round64_def Let_def flip: e_def)
qed

lemma jsAdd_Fin: "jsAdd (Fin a) (Fin b) = round64 (a + b)"
  by (simp add: jsAdd_def)

lemma jsAdd_safe:
  "a \<in> \<int> \<Longrightarrow> b \<in> \<int> \<Longrightarrow> \<bar>a + b\<bar> < 9007199254740992 \<Longrightarrow> jsAdd (Fin a) (Fin b) = Fin (a + b)"
  by (simp add: jsAdd_Fin round64_exact)

text \<open>
  A TTL below half the unit in the last place of the time is lost in the sum: a microsecond
  added to a time of today.
\<close>

lemma tiny_ttl_is_lost:
  "jsAdd (timeValue 1790000000000) (Fin (1 / 1000000)) = Fin 1790000000000"
  by code_simp

lemma jsLess_Fin: "jsLess (Fin a) (Fin b) = (a < b)"
  by (simp add: jsLess_def)

lemma jsLessEq_Fin: "jsLessEq (Fin a) (Fin b) = (a \<le> b)"
  by (auto simp: jsLessEq_def jsLess_def)

lemma jsLessEq_not_jsLess: "jsLessEq a b \<Longrightarrow> \<not> jsLess b a"
  by (simp add: jsLessEq_def)

lemma num_truthy_iff: "num_truthy n = (n \<noteq> NaN \<and> n \<noteq> NegZero \<and> n \<noteq> Fin 0)"
  by (cases n) simp_all

lemmas model_defs =
  isDisabled_def new_LocalCache_def set_cached_def get_cached_def getSync_def admits_def
  unlockKey_def lockLookup_def objectPrototypeKeys_def effectiveTtl_def num_or_def
  DEFAULT_TTL_MS_def size_cache_def timeValue_def clear_def clearLoop_def clearStep_def
  noOptions_def capOne_def disabledOptions_def Let_def jsAdd_safe jsLess_Fin jsLessEq_Fin

section \<open>Basic facts\<close>

lemma unlockKey_cache: "cache (snd (unlockKey key v st)) = cache st"
  by (simp add: unlockKey_def split: lock_lookup.splits)

lemma unlockKey_other:
  "key2 \<noteq> key \<Longrightarrow> lockCallbacks (snd (unlockKey key v st)) key2 = lockCallbacks st key2"
  by (simp add: unlockKey_def split: lock_lookup.splits)

lemma unlockKey_not_capacity: "fst (unlockKey key v st) \<noteq> Threw MaxLimitReach"
  by (simp add: unlockKey_def split: lock_lookup.splits)

lemma set_cached_cache:
  "cache (snd (set_cached key v t now st)) =
     (if \<not> isDisabled st \<and> admits st
      then AList.update key
             \<lparr>itemValue = v, expiredOn = jsAdd (timeValue now) (effectiveTtl t st)\<rparr> (cache st)
      else cache st)"
  by (simp add: set_cached_def unlockKey_cache)

lemma get_cached_cache: "cache (snd (get_cached key w r now st)) = cache st"
  by (simp add: get_cached_def Let_def split: lock_lookup.splits)

lemma set_cached_options: "options (snd (set_cached key v t now st)) = options st"
  by (simp add: set_cached_def unlockKey_def split: lock_lookup.splits)

lemma set_cached_ttl: "ttl (snd (set_cached key v t now st)) = ttl st"
  by (simp add: set_cached_def unlockKey_def split: lock_lookup.splits)

lemma set_cached_lock_other:
  "key2 \<noteq> key \<Longrightarrow>
     lockCallbacks (snd (set_cached key v t now st)) key2 = lockCallbacks st key2"
  by (simp add: set_cached_def unlockKey_other)

lemma get_cached_options: "options (snd (get_cached key w r now st)) = options st"
  by (simp add: get_cached_def Let_def split: lock_lookup.splits)

lemma get_cached_ttl: "ttl (snd (get_cached key w r now st)) = ttl st"
  by (simp add: get_cached_def Let_def split: lock_lookup.splits)

lemma busyCache_fields:
  "options busyCache = None"
  "ttl busyCache = Fin 5000"
  "cache busyCache = [(''b'', \<lparr>itemValue = JStr ''vb'', expiredOn = Fin 10\<rparr>)]"
  "lockCallbacks busyCache ''b'' = Some [7, 8]"
  "lockCallbacks busyCache ''a'' = Some [2]"
  by (simp_all add: busyCache_def model_defs)

section \<open>A failed write\<close>

text \<open>
  C9. When \<open>set\<close> throws the capacity error, the instance is exactly as before the call:
  no entry is written or replaced, and no registration is drained or removed, so the
  waiters of the key are still registered.
\<close>

theorem set_capacity_failure_atomic:
  "fst (set_cached key v t now st) = Threw MaxLimitReach \<Longrightarrow>
     snd (set_cached key v t now st) = st"
  by (simp add: set_cached_def unlockKey_not_capacity split: if_splits)

theorem set_capacity_failure_atomic_witness:
  "fst (set_cached ''b'' (JNum (Fin 2)) None 0
          \<lparr>options = Some capOne, ttl = Fin 5000,
           cache = [(''a'', \<lparr>itemValue = JNum (Fin 1), expiredOn = Fin 5000\<rparr>)],
           lockCallbacks = [''b'' \<mapsto> [7, 8]]\<rparr>) = Threw MaxLimitReach
   \<and> snd (set_cached ''b'' (JNum (Fin 2)) None 0
          \<lparr>options = Some capOne, ttl = Fin 5000,
           cache = [(''a'', \<lparr>itemValue = JNum (Fin 1), expiredOn = Fin 5000\<rparr>)],
           lockCallbacks = [''b'' \<mapsto> [7, 8]]\<rparr>)
     = \<lparr>options = Some capOne, ttl = Fin 5000,
        cache = [(''a'', \<lparr>itemValue = JNum (Fin 1), expiredOn = Fin 5000\<rparr>)],
        lockCallbacks = [''b'' \<mapsto> [7, 8]]\<rparr>"
proof -
  have full: "fst (set_cached ''b'' (JNum (Fin 2)) None 0
          \<lparr>options = Some capOne, ttl = Fin 5000,
           cache = [(''a'', \<lparr>itemValue = JNum (Fin 1), expiredOn = Fin 5000\<rparr>)],
           lockCallbacks = [''b'' \<mapsto> [7, 8]]\<rparr>) = Threw MaxLimitReach"
    by (simp add: model_defs)
  from full set_capacity_failure_atomic [OF full] show ?thesis by simp
qed

section \<open>Operations on one key leave the other keys alone\<close>

text \<open>
  C10. For distinct keys \<open>key\<close> and \<open>key2\<close>, \<open>set(key, v)\<close> leaves the entry and the wait
  registration of \<open>key2\<close> as they were; \<open>get(key)\<close>, with or without waiting, leaves the
  whole entry store as it was and leaves the wait registration of \<open>key2\<close> as it was.
\<close>

theorem other_keys_untouched:
  "key2 \<noteq> key \<Longrightarrow>
     map_of (cache (snd (set_cached key v t now st))) key2 = map_of (cache st) key2
   \<and> lockCallbacks (snd (set_cached key v t now st)) key2 = lockCallbacks st key2
   \<and> cache (snd (get_cached key w r now st)) = cache st
   \<and> lockCallbacks (snd (get_cached key w r now st)) key2 = lockCallbacks st key2"
proof (intro conjI)
  assume ne: "key2 \<noteq> key"
  show "map_of (cache (snd (set_cached key v t now st))) key2 = map_of (cache st) key2"
    using ne by (simp add: set_cached_cache update_conv')
  show "lockCallbacks (snd (set_cached key v t now st)) key2 = lockCallbacks st key2"
    using ne by (rule set_cached_lock_other)
  show "cache (snd (get_cached key w r now st)) = cache st"
    by (rule get_cached_cache)
  show "lockCallbacks (snd (get_cached key w r now st)) key2 = lockCallbacks st key2"
    using ne by (simp add: get_cached_def Let_def split: lock_lookup.splits)
qed

text \<open>
  On the instance \<open>busyCache\<close> the other key \<open>b\<close> has an entry and the waiters 7 and
  8. \<open>set("a", 1)\<close> at time 30 stores \<open>a\<close>, wakes its waiter 2 and deletes its
  registration; \<open>get("a", true)\<close> at time 25 appends the waiter 3 to it. Both leave the entry
  and the waiters of \<open>b\<close> in place.
\<close>

theorem other_keys_untouched_witness:
  "''b'' \<noteq> ''a''
   \<and> map_of (cache busyCache) ''b'' = Some \<lparr>itemValue = JStr ''vb'', expiredOn = Fin 10\<rparr>
   \<and> lockCallbacks busyCache ''b'' = Some [7, 8]
   \<and> fst (set_cached ''a'' (JNum (Fin 1)) None 30 busyCache) = Returned [(2, JNum (Fin 1))]
   \<and> map_of (cache (snd (set_cached ''a'' (JNum (Fin 1)) None 30 busyCache))) ''a''
       = Some \<lparr>itemValue = JNum (Fin 1), expiredOn = Fin 5030\<rparr>
   \<and> lockCallbacks (snd (set_cached ''a'' (JNum (Fin 1)) None 30 busyCache)) ''a'' = None
   \<and> map_of (cache (snd (set_cached ''a'' (JNum (Fin 1)) None 30 busyCache))) ''b''
       = Some \<lparr>itemValue = JStr ''vb'', expiredOn = Fin 10\<rparr>
   \<and> lockCallbacks (snd (set_cached ''a'' (JNum (Fin 1)) None 30 busyCache)) ''b''
       = Some [7, 8]
   \<and> fst (get_cached ''a'' (JBool True) 3 25 busyCache) = Pending
   \<and> lockCallbacks (snd (get_cached ''a'' (JBool True) 3 25 busyCache)) ''a'' = Some [2, 3]
   \<and> cache (snd (get_cached ''a'' (JBool True) 3 25 busyCache))
       = [(''b'', \<lparr>itemValue = JStr ''vb'', expiredOn = Fin 10\<rparr>)]
   \<and> lockCallbacks (snd (get_cached ''a'' (JBool True) 3 25 busyCache)) ''b'' = Some [7, 8]"
proof -
  have ne: "''b'' \<noteq> ''a''" by simp
  have before: "map_of (cache busyCache) ''b''
        = Some \<lparr>itemValue = JStr ''vb'', expiredOn = Fin 10\<rparr>"
      "lockCallbacks busyCache ''b'' = Some [7, 8]" "cache busyCache
        = [(''b'', \<lparr>itemValue = JStr ''vb'', expiredOn = Fin 10\<rparr>)]"
    by (simp_all add: busyCache_fields)
  have own: "fst (set_cached ''a'' (JNum (Fin 1)) None 30 busyCache) = Returned [(2, JNum (Fin 1))]"
      "map_of (cache (snd (set_cached ''a'' (JNum (Fin 1)) None 30 busyCache))) ''a''
        = Some \<lparr>itemValue = JNum (Fin 1), expiredOn = Fin 5030\<rparr>"
      "lockCallbacks (snd (set_cached ''a'' (JNum (Fin 1)) None 30 busyCache)) ''a'' = None"
      "fst (get_cached ''a'' (JBool True) 3 25 busyCache) = Pending"
      "lockCallbacks (snd (get_cached ''a'' (JBool True) 3 25 busyCache)) ''a'' = Some [2, 3]"
    by (simp_all add: busyCache_fields model_defs)
  from other_keys_untouched [where v = "JNum (Fin 1)" and t = None and now = 30
      and st = busyCache, OF ne]
    other_keys_untouched [where now = 25 and st = busyCache and w = "JBool True" and r = 3,
      OF ne]
  have "map_of (cache (snd (set_cached ''a'' (JNum (Fin 1)) None 30 busyCache))) ''b''
        = Some \<lparr>itemValue = JStr ''vb'', expiredOn = Fin 10\<rparr>"
    and "lockCallbacks (snd (set_cached ''a'' (JNum (Fin 1)) None 30 busyCache)) ''b''
        = Some [7, 8]"
    and "cache (snd (get_cached ''a'' (JBool True) 3 25 busyCache))
        = [(''b'', \<lparr>itemValue = JStr ''vb'', expiredOn = Fin 10\<rparr>)]"
    and "lockCallbacks (snd (get_cached ''a'' (JBool True) 3 25 busyCache)) ''b'' = Some [7, 8]"
    by (simp_all add: before)
  with ne before own show ?thesis by blast
qed

section \<open>What a history of calls preserves\<close>

lemma clearStep_fold_fields:
  "options (snd (fold (clearStep now) xs (c, st))) = options st
   \<and> ttl (snd (fold (clearStep now) xs (c, st))) = ttl st
   \<and> lockCallbacks (snd (fold (clearStep now) xs (c, st))) = lockCallbacks st"
  by (induction xs arbitrary: c st) (simp_all add: clearStep_def split: prod.splits)

lemma clear_lockCallbacks: "lockCallbacks (clear now st) = lockCallbacks st"
  by (simp add: clear_def clearLoop_def clearStep_fold_fields)

lemma clear_options: "options (clear now st) = options st"
  by (simp add: clear_def clearLoop_def clearStep_fold_fields)

lemma clear_ttl: "ttl (clear now st) = ttl st"
  by (simp add: clear_def clearLoop_def clearStep_fold_fields)

lemma snd_step_ESet: "snd (step now (ESet key v t) st) = snd (set_cached key v t now st)"
  by (simp split: prod.splits set_result.splits)

lemma snd_step_EGet: "snd (step now (EGet key w r) st) = snd (get_cached key w r now st)"
  by (simp split: prod.splits get_result.splits)

lemma snd_run_Cons: "snd (run ((now, e) # evs) st) = snd (run evs (snd (step now e st)))"
  by (simp split: prod.splits)

lemma fst_run_Cons:
  "fst (run ((now, e) # evs) st) = fst (step now e st) @ fst (run evs (snd (step now e st)))"
  by (simp split: prod.splits)

lemma step_fields:
  "options (snd (step now e st)) = options st \<and> ttl (snd (step now e st)) = ttl st"
proof (cases e)
  case (ESet key v t)
  then show ?thesis by (simp only: snd_step_ESet set_cached_options set_cached_ttl)
next
  case (EGet key w r)
  then show ?thesis by (simp only: snd_step_EGet get_cached_options get_cached_ttl)
next
  case EClear
  then show ?thesis by (simp add: clear_options clear_ttl)
qed

lemma run_fields:
  "options (snd (run evs st)) = options st \<and> ttl (snd (run evs st)) = ttl st"
proof (induction evs arbitrary: st)
  case Nil
  then show ?case by simp
next
  case (Cons a evs)
  obtain now e where a: "a = (now, e)" by (cases a)
  show ?case
    unfolding a snd_run_Cons using Cons.IH [of "snd (step now e st)"] step_fields [of now e st]
    by simp
qed

section \<open>The disabled cache\<close>

lemma run_disabled:
  "isDisabled st \<Longrightarrow> cache st = [] \<Longrightarrow> snd (run evs st) = st"
proof (induction evs)
  case Nil
  then show ?case by simp
next
  case (Cons a evs)
  obtain now e where a: "a = (now, e)" by (cases a)
  have "snd (step now e st) = st"
    using Cons.prems
    by (cases e) (simp_all add: set_cached_def get_cached_def clear_def clearLoop_def)
  with Cons a show ?case by (simp only: snd_run_Cons)
qed

text \<open>
  C6. On an instance whose options have \<open>disabled = true\<close>, \<open>set\<close> and \<open>get\<close> return the
  instance unchanged (entry store and wait registry alike), \<open>get\<close> resolves with \<open>null\<close>
  whatever the wait argument, and \<open>set\<close> returns without throwing and wakes nobody. From
  the constructor, any history of calls leaves the entry store and the wait registry empty.
\<close>

theorem disabled_is_noop:
  assumes "options st = Some opts" and "disabled opts = Some True"
  shows "set_cached key v t now st = (Returned [], st)
       \<and> get_cached key w r now st = (Resolved JNull, st)
       \<and> snd (run evs (new_LocalCache (Some opts))) = new_LocalCache (Some opts)
       \<and> cache (new_LocalCache (Some opts)) = []
       \<and> lockCallbacks (new_LocalCache (Some opts)) = Map.empty"
proof -
  have d: "isDisabled st" using assms by (simp add: isDisabled_def)
  have d0: "isDisabled (new_LocalCache (Some opts))"
    using assms(2) by (simp add: isDisabled_def new_LocalCache_def)
  have e0: "cache (new_LocalCache (Some opts)) = []" by (simp add: new_LocalCache_def)
  show ?thesis
    using d run_disabled [OF d0 e0, of evs]
    by (simp add: set_cached_def get_cached_def new_LocalCache_def)
qed

theorem disabled_is_noop_witness:
  "options (new_LocalCache (Some disabledOptions)) = Some disabledOptions
   \<and> disabled disabledOptions = Some True
   \<and> set_cached ''k'' (JStr ''v'') None 0 (new_LocalCache (Some disabledOptions))
       = (Returned [], new_LocalCache (Some disabledOptions))
   \<and> get_cached ''k'' (JBool True) 1 0 (new_LocalCache (Some disabledOptions))
       = (Resolved JNull, new_LocalCache (Some disabledOptions))
   \<and> snd (run [(0, ESet ''k'' (JStr ''v'') None), (1, EGet ''k'' (JBool True) 1),
         (2, EGet ''k'' (JBool True) 2), (30000, EClear)]
        (new_LocalCache (Some disabledOptions))) = new_LocalCache (Some disabledOptions)"
proof -
  have a: "options (new_LocalCache (Some disabledOptions)) = Some disabledOptions"
    by (simp add: new_LocalCache_def)
  have b: "disabled disabledOptions = Some True"
    by (simp add: disabledOptions_def noOptions_def)
  from a b disabled_is_noop [OF a b] show ?thesis by blast
qed

section \<open>Expiry\<close>

lemma getSync_expired:
  "map_of (cache st) key = Some item \<Longrightarrow> jsLessEq (expiredOn item) (timeValue now) \<Longrightarrow>
     getSync key now st = JNull"
  by (simp add: getSync_def jsLessEq_not_jsLess)

lemma getSync_absent:
  "map_of (cache st) key = None \<Longrightarrow> getSync key now st = JNull"
  by (simp add: getSync_def)

lemma get_cached_miss:
  "getSync key now st = JNull \<Longrightarrow>
     get_cached key w r now st =
       (if isDisabled st \<or> \<not> truthy w then (Resolved JNull, st)
        else case lockLookup (lockCallbacks st) key of
             LUndefined \<Rightarrow>
               (Resolved JNull, st\<lparr>lockCallbacks := (lockCallbacks st)(key \<mapsto> [])\<rparr>)
           | LCallbacks callbacks \<Rightarrow>
               (Pending, st\<lparr>lockCallbacks := (lockCallbacks st)(key \<mapsto> callbacks @ [r])\<rparr>)
           | LInherited \<Rightarrow> (Rejected TypeError, st))"
  by (simp add: get_cached_def)

text \<open>
  C4, amended. \<open>set\<close> changes the entry store only by storing, when the instance is enabled
  and the write is admitted, the entry with \<open>expiredOn = Date.now() + effectiveTtl\<close>, where
  \<open>+\<close> is the addition of doubles: for a finite TTL the exact sum rounded to the nearest
  double, which is the exact sum whenever the TTL is a whole number and the sum is of
  magnitude below \<open>2\<^bsup>53\<^esup>\<close>. An entry with \<open>expiredOn <= now\<close> is read as absent: \<open>getSync\<close>
  gives \<open>null\<close>, \<open>get\<close> without waiting resolves with \<open>null\<close> and changes nothing, \<open>get\<close> never
  resolves with a value, and its result is the one it has with the entry deleted.
\<close>

theorem expiry_enforced:
  "cache (snd (set_cached key v t now st))
     = (if \<not> isDisabled st \<and> admits st
        then AList.update key
               \<lparr>itemValue = v, expiredOn = jsAdd (timeValue now) (effectiveTtl t st)\<rparr> (cache st)
        else cache st)
   \<and> jsAdd (timeValue now) (Fin d) = round64 (of_int now + d)
   \<and> (d \<in> \<int> \<and> \<bar>of_int now + d\<bar> < 2 ^ 53 \<longrightarrow>
        jsAdd (timeValue now) (Fin d) = Fin (of_int now + d))
   \<and> (map_of (cache st) key = Some item \<and> jsLessEq (expiredOn item) (timeValue now') \<longrightarrow>
        getSync key now' st = JNull
      \<and> (\<not> truthy w \<longrightarrow> get_cached key w r now' st = (Resolved JNull, st))
      \<and> (\<forall>x. truthy x \<longrightarrow> fst (get_cached key w r now' st) \<noteq> Resolved x)
      \<and> fst (get_cached key w r now' st)
          = fst (get_cached key w r now' (st\<lparr>cache := AList.delete key (cache st)\<rparr>)))"
proof (intro conjI impI)
  show "cache (snd (set_cached key v t now st))
     = (if \<not> isDisabled st \<and> admits st
        then AList.update key
               \<lparr>itemValue = v, expiredOn = jsAdd (timeValue now) (effectiveTtl t st)\<rparr> (cache st)
        else cache st)"
    by (rule set_cached_cache)
next
  show "jsAdd (timeValue now) (Fin d) = round64 (of_int now + d)"
    by (simp add: timeValue_def jsAdd_Fin)
next
  assume "d \<in> \<int> \<and> \<bar>of_int now + d\<bar> < 2 ^ 53"
  then show "jsAdd (timeValue now) (Fin d) = Fin (of_int now + d)"
    by (simp add: timeValue_def jsAdd_Fin round64_exact)
next
  assume h: "map_of (cache st) key = Some item \<and> jsLessEq (expiredOn item) (timeValue now')"
  then have miss: "getSync key now' st = JNull" by (simp add: getSync_expired)
  show "getSync key now' st = JNull" by (rule miss)
  show "get_cached key w r now' st = (Resolved JNull, st)" if "\<not> truthy w"
    using that by (simp add: get_cached_miss [OF miss])
  show "\<forall>x. truthy x \<longrightarrow> fst (get_cached key w r now' st) \<noteq> Resolved x"
    by (auto simp: get_cached_miss [OF miss] split: lock_lookup.splits)
  have miss': "getSync key now' (st\<lparr>cache := AList.delete key (cache st)\<rparr>) = JNull"
    by (simp add: getSync_def delete_conv')
  show "fst (get_cached key w r now' st)
          = fst (get_cached key w r now' (st\<lparr>cache := AList.delete key (cache st)\<rparr>))"
    by (simp add: get_cached_miss [OF miss] get_cached_miss [OF miss'] isDisabled_def
        split: lock_lookup.splits)
qed

text \<open>
  As in the test of the TTL, a write at time 1000 with a TTL of 100 ms expires at
  1100; the reads at 1100 and at 1150 find nothing. On \<open>busyCache\<close> the entry of \<open>b\<close> expired
  at 10 and \<open>b\<close> has waiters: the waiting read of time 50 is appended to them, as it is
  when the entry is deleted.
\<close>

theorem expiry_enforced_witness:
  "cache (snd (set_cached ''k'' (JStr ''v'') (Some (Fin 100)) 1000 (new_LocalCache None)))
     = [(''k'', \<lparr>itemValue = JStr ''v'', expiredOn = Fin 1100\<rparr>)]
   \<and> (100::rat) \<in> \<int> \<and> \<bar>of_int 1000 + (100::rat)\<bar> < 2 ^ 53
   \<and> jsAdd (timeValue 1000) (Fin 100) = Fin 1100
   \<and> jsLessEq (Fin 1100) (timeValue 1100)
   \<and> getSync ''k'' 1100
        (snd (set_cached ''k'' (JStr ''v'') (Some (Fin 100)) 1000 (new_LocalCache None))) = JNull
   \<and> get_cached ''k'' JUndefined 0 1150
        (snd (set_cached ''k'' (JStr ''v'') (Some (Fin 100)) 1000 (new_LocalCache None)))
       = (Resolved JNull,
          snd (set_cached ''k'' (JStr ''v'') (Some (Fin 100)) 1000 (new_LocalCache None)))
   \<and> map_of (cache busyCache) ''b'' = Some \<lparr>itemValue = JStr ''vb'', expiredOn = Fin 10\<rparr>
   \<and> jsLessEq (Fin 10) (timeValue 50)
   \<and> fst (get_cached ''b'' (JBool True) 9 50 busyCache) = Pending
   \<and> fst (get_cached ''b'' (JBool True) 9 50
        (busyCache\<lparr>cache := AList.delete ''b'' (cache busyCache)\<rparr>)) = Pending"
proof -
  let ?st = "snd (set_cached ''k'' (JStr ''v'') (Some (Fin 100)) 1000 (new_LocalCache None))"
  let ?item = "\<lparr>itemValue = JStr ''v'', expiredOn = Fin 1100\<rparr>"
  let ?itemB = "\<lparr>itemValue = JStr ''vb'', expiredOn = Fin 10\<rparr>"
  have safe: "(100::rat) \<in> \<int> \<and> \<bar>of_int 1000 + (100::rat)\<bar> < 2 ^ 53" by simp
  have "jsAdd (timeValue 1000) (Fin 100) = Fin (of_int 1000 + 100)"
    using safe expiry_enforced [where now = 1000 and d = 100] by blast
  then have sum: "jsAdd (timeValue 1000) (Fin 100) = Fin 1100" by simp
  have stored: "cache ?st = [(''k'', ?item)]"
    using expiry_enforced [where st = "new_LocalCache None" and key = "''k''"
        and v = "JStr ''v''" and t = "Some (Fin 100)" and now = 1000] sum
    by (simp add: isDisabled_def admits_def new_LocalCache_def effectiveTtl_def num_or_def)
  have old1: "map_of (cache ?st) ''k'' = Some ?item
      \<and> jsLessEq (expiredOn ?item) (timeValue 1100)"
    using stored by (simp add: timeValue_def jsLessEq_Fin)
  have old2: "map_of (cache ?st) ''k'' = Some ?item
      \<and> jsLessEq (expiredOn ?item) (timeValue 1150)"
    using stored by (simp add: timeValue_def jsLessEq_Fin)
  have oldB: "map_of (cache busyCache) ''b'' = Some ?itemB
      \<and> jsLessEq (expiredOn ?itemB) (timeValue 50)"
    by (simp add: busyCache_fields timeValue_def jsLessEq_Fin)
  have g1: "getSync ''k'' 1100 ?st = JNull"
    using old1 expiry_enforced [where st = ?st and key = "''k''" and item = ?item
        and now' = 1100]
    by blast
  have g2: "get_cached ''k'' JUndefined 0 1150 ?st = (Resolved JNull, ?st)"
    using old2 expiry_enforced [where st = ?st and key = "''k''" and item = ?item
        and now' = 1150 and w = JUndefined and r = 0]
    by simp
  have p: "fst (get_cached ''b'' (JBool True) 9 50 busyCache) = Pending"
    by (simp add: get_cached_def getSync_def isDisabled_def lockLookup_def busyCache_fields
        timeValue_def jsLess_Fin)
  have g3: "fst (get_cached ''b'' (JBool True) 9 50
        (busyCache\<lparr>cache := AList.delete ''b'' (cache busyCache)\<rparr>)) = Pending"
    using oldB p expiry_enforced [where st = busyCache and key = "''b''" and item = ?itemB
        and now' = 50 and w = "JBool True" and r = 9]
    by simp
  from safe sum stored old1 oldB g1 g2 p g3 show ?thesis by simp
qed

text \<open>
  C4 as claimed, with the exact sum, fails beyond \<open>2\<^bsup>53\<^esup>\<close>: a write at time 1790000000000
  with a TTL of 9007199254740991 ms stores the expiry 9008989254740992, one more than the
  sum 9008989254740991, which no double holds.
\<close>

theorem expiry_rounded_counterexample:
  "cache (snd (set_cached ''k'' (JStr ''v'') (Some (Fin 9007199254740991)) 1790000000000
       (new_LocalCache None)))
     = [(''k'', \<lparr>itemValue = JStr ''v'', expiredOn = Fin 9008989254740992\<rparr>)]
   \<and> (9008989254740992::rat) \<noteq> 1790000000000 + 9007199254740991"
proof -
  have b: "bitlen 9008989254740991 = 54"
    by (rule antisym) (simp_all add: bitlen_le_iff_power bitlen_ge_iff_power)
  have f: "\<lfloor>(9008989254740991::rat) / 2\<rfloor> = 4504494627370495"
    using floor_divide_of_int_eq [of 9008989254740991 2, where ?'a = rat] by simp
  have "round64 9008989254740991 = Fin 9008989254740992"
    by (simp add: round64_def flog2_def b roundHalfEven_def Let_def f)
  then show ?thesis
    by (simp add: set_cached_def unlockKey_def lockLookup_def objectPrototypeKeys_def
        isDisabled_def admits_def new_LocalCache_def effectiveTtl_def num_or_def
        timeValue_def jsAdd_Fin)
qed

section \<open>Round trip\<close>

lemma set_cached_stores:
  "\<not> isDisabled st \<Longrightarrow> fst (set_cached key v t now st) \<noteq> Threw MaxLimitReach \<Longrightarrow>
     map_of (cache (snd (set_cached key v t now st))) key
       = Some \<lparr>itemValue = v, expiredOn = jsAdd (timeValue now) (effectiveTtl t st)\<rparr>"
proof (cases "admits st")
  case True
  assume "\<not> isDisabled st"
  with True show ?thesis by (simp add: set_cached_cache update_conv')
next
  case False
  assume "\<not> isDisabled st" and "fst (set_cached key v t now st) \<noteq> Threw MaxLimitReach"
  with False show ?thesis by (simp add: set_cached_def)
qed

lemma getSync_hit:
  "\<not> isDisabled st \<Longrightarrow> map_of (cache st) key = Some item \<Longrightarrow>
     jsLess (timeValue now) (expiredOn item) \<Longrightarrow> truthy (itemValue item) \<Longrightarrow>
     getSync key now st = itemValue item"
  by (simp add: getSync_def)

lemma get_cached_hit:
  "\<not> isDisabled st \<Longrightarrow> truthy (getSync key now st) \<Longrightarrow>
     get_cached key w r now st = (Resolved (getSync key now st), st)"
  by (simp add: get_cached_def)

text \<open>
  For a truthy value the round trip is as claimed: on an enabled instance, a \<open>set(key, v)\<close>
  that does not throw the capacity error followed by \<open>get(key)\<close> at a time before the
  expiry stored makes \<open>get\<close> call \<open>resolve(v)\<close> and change nothing.
\<close>

lemma set_then_get_truthy:
  assumes "\<not> isDisabled st" and "truthy v"
    and "fst (set_cached key v t now st) \<noteq> Threw MaxLimitReach"
    and "jsLess (timeValue now') (jsAdd (timeValue now) (effectiveTtl t st))"
  shows "get_cached key w r now' (snd (set_cached key v t now st))
           = (Resolved v, snd (set_cached key v t now st))"
proof -
  let ?st = "snd (set_cached key v t now st)"
  have en: "\<not> isDisabled ?st" using assms(1) by (simp add: isDisabled_def set_cached_options)
  have "map_of (cache ?st) key
      = Some \<lparr>itemValue = v, expiredOn = jsAdd (timeValue now) (effectiveTtl t st)\<rparr>"
    using assms(1,3) by (rule set_cached_stores)
  then have "getSync key now' ?st = v"
    using en assms(2,4) by (simp add: getSync_hit)
  then show ?thesis
    using assms(2) get_cached_hit [OF en, of key now' w r] by simp
qed

text \<open>
  C1 fails for a falsy value. On a new instance \<open>set("k", 0)\<close> at time 0 returns and stores
  the entry, live until 5000, and the store counts it; yet at time 0 the synchronous lookup
  and \<open>get("k")\<close> give \<open>null\<close>, because both test the value itself
  (\<open>cacheItem?.value && ...\<close>, \<open>if (result)\<close>) where the presence of the entry is meant. The
  write path treats the same value as a value: a waiter registered before the write is
  woken with \<open>0\<close>.
\<close>

theorem falsy_value_not_read_back:
  "\<not> isDisabled (new_LocalCache None)
   \<and> fst (set_cached ''k'' (JNum (Fin 0)) None 0 (new_LocalCache None)) = Returned []
   \<and> cache (snd (set_cached ''k'' (JNum (Fin 0)) None 0 (new_LocalCache None)))
       = [(''k'', \<lparr>itemValue = JNum (Fin 0), expiredOn = Fin 5000\<rparr>)]
   \<and> size_cache (snd (set_cached ''k'' (JNum (Fin 0)) None 0 (new_LocalCache None))) = 1
   \<and> getSync ''k'' 0 (snd (set_cached ''k'' (JNum (Fin 0)) None 0 (new_LocalCache None)))
       = JNull
   \<and> fst (get_cached ''k'' JUndefined 1 0
        (snd (set_cached ''k'' (JNum (Fin 0)) None 0 (new_LocalCache None)))) = Resolved JNull
   \<and> fst (run [(0, EGet ''k'' (JBool True) 1), (0, EGet ''k'' (JBool True) 2),
               (1, ESet ''k'' (JNum (Fin 0)) None), (1, EGet ''k'' JUndefined 3)]
          (new_LocalCache None))
       = [(1, JNull), (2, JNum (Fin 0)), (3, JNull)]"
  by (simp add: model_defs)

section \<open>The effective TTL\<close>

text \<open>
  C5, amended. For every call \<open>set(key, v, t)\<close> on an instance made by the constructor
  and used by any history of calls, the effective TTL is the argument \<open>t\<close> when it is given
  and is truthy, that is, is not \<open>NaN\<close>, \<open>0\<close> or \<open>-0\<close>, and the configured default otherwise;
  the configured default is \<open>defaultTTLMs\<close> when that is given and is truthy, and 5000
  otherwise. An admitted write stores \<open>expiredOn = Date.now() +\<close> that TTL.
\<close>

theorem effective_ttl_falls_back:
  "effectiveTtl t (snd (run evs (new_LocalCache opts)))
     = (case t of
          Some n \<Rightarrow> if n \<noteq> NaN \<and> n \<noteq> NegZero \<and> n \<noteq> Fin 0 then n else ttl (new_LocalCache opts)
        | None \<Rightarrow> ttl (new_LocalCache opts))
   \<and> ttl (new_LocalCache opts)
     = (case Option.bind opts defaultTTLMs of
          Some d \<Rightarrow> if d \<noteq> NaN \<and> d \<noteq> NegZero \<and> d \<noteq> Fin 0 then d else Fin 5000
        | None \<Rightarrow> Fin 5000)
   \<and> (\<not> isDisabled st \<and> admits st \<longrightarrow>
        map_of (cache (snd (set_cached key v t now st))) key
          = Some \<lparr>itemValue = v, expiredOn = jsAdd (timeValue now) (num_or t (ttl st))\<rparr>)"
proof (intro conjI impI)
  show "effectiveTtl t (snd (run evs (new_LocalCache opts)))
     = (case t of
          Some n \<Rightarrow> if n \<noteq> NaN \<and> n \<noteq> NegZero \<and> n \<noteq> Fin 0 then n else ttl (new_LocalCache opts)
        | None \<Rightarrow> ttl (new_LocalCache opts))"
    by (simp add: effectiveTtl_def run_fields num_or_def num_truthy_iff split: option.splits)
  show "ttl (new_LocalCache opts)
     = (case Option.bind opts defaultTTLMs of
          Some d \<Rightarrow> if d \<noteq> NaN \<and> d \<noteq> NegZero \<and> d \<noteq> Fin 0 then d else Fin 5000
        | None \<Rightarrow> Fin 5000)"
    by (simp add: new_LocalCache_def num_or_def DEFAULT_TTL_MS_def num_truthy_iff
        split: option.splits)
  assume "\<not> isDisabled st \<and> admits st"
  then show "map_of (cache (snd (set_cached key v t now st))) key
          = Some \<lparr>itemValue = v, expiredOn = jsAdd (timeValue now) (num_or t (ttl st))\<rparr>"
    by (simp add: set_cached_cache update_conv' effectiveTtl_def)
qed

theorem effective_ttl_falls_back_witness:
  "effectiveTtl (Some (Fin 100)) (new_LocalCache None) = Fin 100
   \<and> effectiveTtl (Some (Fin (1 / 2))) (new_LocalCache None) = Fin (1 / 2)
   \<and> effectiveTtl (Some PosInf) (new_LocalCache None) = PosInf
   \<and> effectiveTtl (Some NaN) (new_LocalCache None) = Fin 5000
   \<and> effectiveTtl None (new_LocalCache (Some (noOptions\<lparr>defaultTTLMs := Some (Fin 250)\<rparr>)))
       = Fin 250
   \<and> effectiveTtl None (new_LocalCache (Some (noOptions\<lparr>defaultTTLMs := Some NaN\<rparr>)))
       = Fin 5000
   \<and> \<not> isDisabled busyCache \<and> admits busyCache
   \<and> map_of (cache (snd (set_cached ''k'' (JStr ''v'') (Some (Fin 100)) 30 busyCache))) ''k''
       = Some \<lparr>itemValue = JStr ''v'', expiredOn = Fin 130\<rparr>"
proof -
  have en: "\<not> isDisabled busyCache \<and> admits busyCache"
    by (simp add: isDisabled_def admits_def busyCache_fields)
  have a: "effectiveTtl (Some (Fin 100)) (new_LocalCache None) = Fin 100"
    using effective_ttl_falls_back [where t = "Some (Fin 100)" and evs = "[]" and opts = None]
    by simp
  have a2: "effectiveTtl (Some (Fin (1 / 2))) (new_LocalCache None) = Fin (1 / 2)"
    using effective_ttl_falls_back [where t = "Some (Fin (1 / 2))" and evs = "[]"
        and opts = None]
    by simp
  have a3: "effectiveTtl (Some PosInf) (new_LocalCache None) = PosInf"
    using effective_ttl_falls_back [where t = "Some PosInf" and evs = "[]" and opts = None]
    by simp
  have a4: "effectiveTtl (Some NaN) (new_LocalCache None) = Fin 5000"
    using effective_ttl_falls_back [where t = "Some NaN" and evs = "[]" and opts = None]
    by simp
  have b: "effectiveTtl None (new_LocalCache (Some (noOptions\<lparr>defaultTTLMs := Some (Fin 250)\<rparr>)))
      = Fin 250"
    using effective_ttl_falls_back [where t = None and evs = "[]"
        and opts = "Some (noOptions\<lparr>defaultTTLMs := Some (Fin 250)\<rparr>)"]
    by simp
  have b2: "effectiveTtl None (new_LocalCache (Some (noOptions\<lparr>defaultTTLMs := Some NaN\<rparr>)))
      = Fin 5000"
    using effective_ttl_falls_back [where t = None and evs = "[]"
        and opts = "Some (noOptions\<lparr>defaultTTLMs := Some NaN\<rparr>)"]
    by simp
  have c: "map_of (cache (snd (set_cached ''k'' (JStr ''v'') (Some (Fin 100)) 30 busyCache)))
       ''k'' = Some \<lparr>itemValue = JStr ''v'', expiredOn = Fin 130\<rparr>"
    using en effective_ttl_falls_back [where t = "Some (Fin 100)" and st = busyCache
        and key = "''k''" and v = "JStr ''v''" and now = 30]
    by (simp add: num_or_def timeValue_def jsAdd_safe)
  from a a2 a3 a4 b b2 en c show ?thesis by blast
qed

text \<open>
  C5 as claimed fails for an explicit \<open>ttl = 0\<close>: \<open>ttl || this.ttl\<close> takes the default, and the
  entry written at time 100 expires at 5100, not at 100.
\<close>

theorem ttl_zero_counterexample:
  "effectiveTtl (Some (Fin 0)) (new_LocalCache None) = Fin 5000
   \<and> map_of (cache (snd (set_cached ''k'' (JStr ''v'') (Some (Fin 0)) 100 (new_LocalCache None))))
        ''k'' = Some \<lparr>itemValue = JStr ''v'', expiredOn = Fin 5100\<rparr>
   \<and> Fin 5100 \<noteq> Fin (100 + 0)"
  by (simp add: model_defs)

section \<open>Waiting has no deadline\<close>

lemma get_cached_truthy_cong:
  "truthy w = truthy w' \<Longrightarrow> get_cached k w r now st = get_cached k w' r now st"
  by (simp add: get_cached_def Let_def)

lemma get_cached_keeps_waiters:
  "lockCallbacks st key = Some callbacks \<Longrightarrow>
     \<exists>more. lockCallbacks (snd (get_cached k w r now st)) key = Some (callbacks @ more)"
  by (cases "k = key")
    (auto simp: get_cached_def Let_def lockLookup_def split: lock_lookup.splits)

lemma set_cached_lock_sub:
  "lockCallbacks (snd (set_cached k v t now st)) k2 = Some callbacks \<Longrightarrow>
     lockCallbacks st k2 = Some callbacks"
  by (auto simp: set_cached_def unlockKey_def split: if_splits lock_lookup.splits)

lemma set_cached_calls:
  "fst (set_cached k v t now st) = Returned calls \<Longrightarrow>
     calls = [] \<or> (\<exists>callbacks. lockCallbacks st k = Some callbacks
                      \<and> calls = map (\<lambda>i. (i, v)) callbacks)"
  by (auto simp: set_cached_def unlockKey_def lockLookup_def
      split: if_splits lock_lookup.splits option.splits)

lemma get_cached_lock_sub:
  "lockCallbacks (snd (get_cached k w r' now st)) k2 = Some callbacks \<Longrightarrow>
     lockCallbacks st k2 = Some callbacks
     \<or> (k2 = k \<and> (callbacks = []
          \<or> (\<exists>old. lockCallbacks st k = Some old \<and> callbacks = old @ [r'])))"
  by (auto simp: get_cached_def Let_def lockLookup_def
      split: if_splits lock_lookup.splits option.splits)

lemma step_keeps_waiters:
  assumes "\<not> setsKey key e" and "lockCallbacks st key = Some callbacks"
  shows "\<exists>more. lockCallbacks (snd (step now e st)) key = Some (callbacks @ more)"
proof (cases e)
  case (ESet k v t)
  with assms(1) have "key \<noteq> k" by auto
  then have "lockCallbacks (snd (step now e st)) key = lockCallbacks st key"
    unfolding ESet snd_step_ESet by (rule set_cached_lock_other)
  with assms(2) show ?thesis by simp
next
  case (EGet k w r)
  then show ?thesis
    unfolding EGet snd_step_EGet using get_cached_keeps_waiters [OF assms(2)] by simp
next
  case EClear
  then show ?thesis using assms(2) by (simp add: clear_lockCallbacks)
qed

lemma step_waitsOnlyFor:
  assumes "\<not> getsWith r e" and "waitsOnlyFor st r key"
  shows "waitsOnlyFor (snd (step now e st)) r key"
proof (cases e)
  case (ESet k v t)
  show ?thesis
    unfolding ESet snd_step_ESet waitsOnlyFor_def
    using assms(2) by (auto simp: waitsOnlyFor_def dest: set_cached_lock_sub)
next
  case (EGet k w r')
  with assms(1) have ne: "r' \<noteq> r" by simp
  show ?thesis
    unfolding EGet snd_step_EGet waitsOnlyFor_def
  proof (intro allI impI, elim conjE)
    fix k2 callbacks
    assume l: "lockCallbacks (snd (get_cached k w r' now st)) k2 = Some callbacks"
      and r: "r \<in> set callbacks"
    from get_cached_lock_sub [OF l] r ne assms(2) show "k2 = key"
      by (auto simp: waitsOnlyFor_def)
  qed
next
  case EClear
  then show ?thesis using assms(2) by (simp add: waitsOnlyFor_def clear_lockCallbacks)
qed

lemma step_does_not_call:
  assumes "\<not> setsKey key e" and "\<not> getsWith r e" and "waitsOnlyFor st r key"
  shows "r \<notin> fst ` set (fst (step now e st))"
proof (cases e)
  case (ESet k v t)
  with assms(1) have ne: "k \<noteq> key" by simp
  show ?thesis
  proof (cases "set_cached k v t now st")
    case (Pair res st')
    show ?thesis
    proof (cases res)
      case (Returned calls)
      from set_cached_calls [of k v t now st calls] Pair Returned
      have "calls = [] \<or> (\<exists>callbacks. lockCallbacks st k = Some callbacks
          \<and> calls = map (\<lambda>i. (i, v)) callbacks)" by simp
      then have "r \<notin> fst ` set calls"
        using ne assms(3) by (auto simp: waitsOnlyFor_def)
      then show ?thesis by (simp add: ESet Pair Returned)
    next
      case (Threw err)
      then show ?thesis by (simp add: ESet Pair)
    qed
  qed
next
  case (EGet k w r')
  with assms(2) have "r' \<noteq> r" by simp
  then show ?thesis by (auto simp: EGet split: prod.splits get_result.splits)
next
  case EClear
  then show ?thesis by simp
qed

lemma run_keeps_waiters:
  "list_all (\<lambda>(now, e). \<not> setsKey key e \<and> \<not> getsWith r e) evs \<Longrightarrow>
   lockCallbacks st key = Some callbacks \<Longrightarrow> waitsOnlyFor st r key \<Longrightarrow>
     (\<exists>more. lockCallbacks (snd (run evs st)) key = Some (callbacks @ more))
     \<and> r \<notin> fst ` set (fst (run evs st))"
proof (induction evs arbitrary: st callbacks)
  case Nil
  then show ?case by simp
next
  case (Cons a evs)
  obtain now e where a: "a = (now, e)" by (cases a)
  from Cons.prems(1) a have e: "\<not> setsKey key e" "\<not> getsWith r e"
    and rest: "list_all (\<lambda>(now, e). \<not> setsKey key e \<and> \<not> getsWith r e) evs" by simp_all
  from step_keeps_waiters [OF e(1) Cons.prems(2)]
  obtain more where m: "lockCallbacks (snd (step now e st)) key = Some (callbacks @ more)"
    by blast
  have only: "waitsOnlyFor (snd (step now e st)) r key"
    using e(2) Cons.prems(3) by (rule step_waitsOnlyFor)
  from Cons.IH [OF rest m only]
  obtain more' where m': "lockCallbacks (snd (run evs (snd (step now e st)))) key
      = Some ((callbacks @ more) @ more')"
    and quiet: "r \<notin> fst ` set (fst (run evs (snd (step now e st))))" by blast
  have "lockCallbacks (snd (run (a # evs) st)) key = Some (callbacks @ (more @ more'))"
    unfolding a snd_run_Cons using m' by simp
  moreover have "r \<notin> fst ` set (fst (run (a # evs) st))"
    unfolding a fst_run_Cons
    using quiet step_does_not_call [OF e Cons.prems(3), of now] by auto
  ultimately show ?case by blast
qed

lemma set_cached_wakes_in_order:
  assumes "\<not> isDisabled st" and "admits st" and "lockCallbacks st key = Some callbacks"
  shows "set_cached key v t now st
           = (Returned (map (\<lambda>i. (i, v)) callbacks),
              st\<lparr>cache := AList.update key
                    \<lparr>itemValue = v, expiredOn = jsAdd (timeValue now) (effectiveTtl t st)\<rparr>
                    (cache st),
                 lockCallbacks := (lockCallbacks st)(key := None)\<rparr>)"
  using assms by (simp add: set_cached_def unlockKey_def lockLookup_def)

text \<open>
  C8. \<open>get\<close> reads its wait argument for truthiness only, so any two truthy arguments
  (\<open>true\<close>, \<open>2000\<close>) give the same result and the same instance: a number is not a deadline.
  Let \<open>r\<close> be the \<open>resolve\<close> of a waiter registered for \<open>key\<close>. Any history of calls and
  sweeps, at any times, that contains no \<open>set\<close> of \<open>key\<close> (its reads carry their own
  \<open>resolve\<close>, not \<open>r\<close>) never calls \<open>r\<close> and leaves the waiters of \<open>key\<close> registered, in
  their order and at the head of the key's list: the waiter is still pending. The next
  admitted \<open>set(key, v)\<close> calls every one of them, in that order, with \<open>v\<close>.
\<close>

theorem waiter_stays_pending:
  "(truthy w = truthy w' \<longrightarrow> get_cached k w r' now st = get_cached k w' r' now st)
   \<and> (lockCallbacks st key = Some callbacks \<and> r \<in> set callbacks \<and> waitsOnlyFor st r key
       \<and> list_all (\<lambda>(now, e). \<not> setsKey key e \<and> \<not> getsWith r e) evs \<longrightarrow>
        r \<notin> fst ` set (fst (run evs st))
        \<and> (\<exists>more. lockCallbacks (snd (run evs st)) key = Some (callbacks @ more)
              \<and> (\<not> isDisabled st \<and> admits (snd (run evs st)) \<longrightarrow>
                   fst (set_cached key v t now (snd (run evs st)))
                     = Returned (map (\<lambda>i. (i, v)) (callbacks @ more)))))"
proof (intro conjI impI)
  assume "truthy w = truthy w'"
  then show "get_cached k w r' now st = get_cached k w' r' now st"
    by (rule get_cached_truthy_cong)
next
  assume h: "lockCallbacks st key = Some callbacks \<and> r \<in> set callbacks \<and> waitsOnlyFor st r key
       \<and> list_all (\<lambda>(now, e). \<not> setsKey key e \<and> \<not> getsWith r e) evs"
  from h run_keeps_waiters [of key r evs st callbacks]
  obtain more where m: "lockCallbacks (snd (run evs st)) key = Some (callbacks @ more)"
    and quiet: "r \<notin> fst ` set (fst (run evs st))" by blast
  show "r \<notin> fst ` set (fst (run evs st))" by (rule quiet)
  have "fst (set_cached key v t now (snd (run evs st)))
      = Returned (map (\<lambda>i. (i, v)) (callbacks @ more))"
    if "\<not> isDisabled st \<and> admits (snd (run evs st))"
  proof -
    from that have "\<not> isDisabled (snd (run evs st))" by (simp add: isDisabled_def run_fields)
    with that m show ?thesis by (simp add: set_cached_wakes_in_order)
  qed
  with m show "\<exists>more. lockCallbacks (snd (run evs st)) key = Some (callbacks @ more)
      \<and> (\<not> isDisabled st \<and> admits (snd (run evs st)) \<longrightarrow>
           fst (set_cached key v t now (snd (run evs st)))
             = Returned (map (\<lambda>i. (i, v)) (callbacks @ more)))"
    by blast
qed

text \<open>
  On \<open>busyCache\<close>, take the waiter 7 of \<open>b\<close> and a history with sweeps, a write
  of \<open>a\<close>, which wakes the waiter 2 of \<open>a\<close>, and further reads of both keys, up to one
  minute later. It calls 2 and 3, woken by that write, and 10, a plain read, never 7; the waiters of
  \<open>b\<close> are then \<open>[7, 8, 11]\<close>, and the write of \<open>b\<close> calls them in this order.
\<close>

theorem waiter_stays_pending_witness:
  "truthy (JNum (Fin 2000)) = truthy (JBool True)
   \<and> get_cached ''b'' (JNum (Fin 2000)) 9 50 busyCache
       = get_cached ''b'' (JBool True) 9 50 busyCache
   \<and> lockCallbacks busyCache ''b'' = Some [7, 8] \<and> 7 \<in> set [7, 8::nat]
   \<and> waitsOnlyFor busyCache 7 ''b''
   \<and> list_all (\<lambda>(now, e). \<not> setsKey ''b'' e \<and> \<not> getsWith 7 e)
        [(2000, EClear), (2001, EGet ''a'' (JNum (Fin 2000)) 3), (30000, EClear),
         (30001, ESet ''a'' (JStr ''x'') None), (30002, EGet ''a'' JUndefined 10),
         (60000, EGet ''b'' (JNum (Fin 2000)) 11)]
   \<and> fst (run [(2000, EClear), (2001, EGet ''a'' (JNum (Fin 2000)) 3), (30000, EClear),
         (30001, ESet ''a'' (JStr ''x'') None), (30002, EGet ''a'' JUndefined 10),
         (60000, EGet ''b'' (JNum (Fin 2000)) 11)] busyCache)
       = [(2, JStr ''x''), (3, JStr ''x''), (10, JStr ''x'')]
   \<and> 7 \<notin> fst ` set (fst (run [(2000, EClear), (2001, EGet ''a'' (JNum (Fin 2000)) 3),
         (30000, EClear), (30001, ESet ''a'' (JStr ''x'') None),
         (30002, EGet ''a'' JUndefined 10), (60000, EGet ''b'' (JNum (Fin 2000)) 11)]
         busyCache))
   \<and> lockCallbacks (snd (run [(2000, EClear), (2001, EGet ''a'' (JNum (Fin 2000)) 3),
         (30000, EClear), (30001, ESet ''a'' (JStr ''x'') None),
         (30002, EGet ''a'' JUndefined 10), (60000, EGet ''b'' (JNum (Fin 2000)) 11)]
         busyCache)) ''b'' = Some [7, 8, 11]
   \<and> fst (set_cached ''b'' (JStr ''y'') None 60001
        (snd (run [(2000, EClear), (2001, EGet ''a'' (JNum (Fin 2000)) 3),
         (30000, EClear), (30001, ESet ''a'' (JStr ''x'') None),
         (30002, EGet ''a'' JUndefined 10), (60000, EGet ''b'' (JNum (Fin 2000)) 11)]
         busyCache)))
       = Returned [(7, JStr ''y''), (8, JStr ''y''), (11, JStr ''y'')]"
proof -
  let ?evs = "[(2000, EClear), (2001, EGet ''a'' (JNum (Fin 2000)) 3), (30000, EClear),
      (30001, ESet ''a'' (JStr ''x'') None), (30002, EGet ''a'' JUndefined 10),
      (60000, EGet ''b'' (JNum (Fin 2000)) 11)]"
  have full: "busyCache = \<lparr>options = None, ttl = Fin 5000,
      cache = [(''b'', \<lparr>itemValue = JStr ''vb'', expiredOn = Fin 10\<rparr>)],
      lockCallbacks = [''b'' \<mapsto> [7, 8], ''a'' \<mapsto> [2]]\<rparr>"
    by (simp add: busyCache_def model_defs)
  have tr: "truthy (JNum (Fin 2000)) = truthy (JBool True)" by simp
  have reg: "lockCallbacks busyCache ''b'' = Some [7, 8] \<and> 7 \<in> set [7, 8::nat]"
    by (simp add: busyCache_fields)
  have only: "waitsOnlyFor busyCache 7 ''b''"
    by (auto simp: waitsOnlyFor_def full split: if_splits)
  have quiet: "list_all (\<lambda>(now, e). \<not> setsKey ''b'' e \<and> \<not> getsWith 7 e) ?evs" by simp
  have calls: "fst (run ?evs busyCache) = [(2, JStr ''x''), (3, JStr ''x''), (10, JStr ''x'')]"
    by (simp add: full model_defs)
  have after: "lockCallbacks (snd (run ?evs busyCache)) ''b'' = Some [7, 8, 11]"
    by (simp add: full model_defs)
  have "options (snd (run ?evs busyCache)) = None"
    by (simp only: run_fields busyCache_fields)
  then have "admits (snd (run ?evs busyCache))"
    unfolding admits_def by (simp only: option.case bind.simps)
  then have adm: "\<not> isDisabled busyCache \<and> admits (snd (run ?evs busyCache))"
    by (simp add: isDisabled_def busyCache_fields)
  have same: "get_cached ''b'' (JNum (Fin 2000)) 9 50 busyCache
       = get_cached ''b'' (JBool True) 9 50 busyCache"
    using tr waiter_stays_pending [where w = "JNum (Fin 2000)" and w' = "JBool True"
        and k = "''b''" and r' = 9 and now = 50 and st = busyCache]
    by blast
  define final where "final = snd (run ?evs busyCache)"
  from reg only quiet
    waiter_stays_pending [where st = busyCache and key = "''b''" and callbacks = "[7, 8]"
      and r = 7 and evs = ?evs and v = "JStr ''y''" and t = None and now = 60001]
  have pending: "7 \<notin> fst ` set (fst (run ?evs busyCache))"
    and "\<exists>more. lockCallbacks final ''b'' = Some ([7, 8] @ more)
        \<and> (\<not> isDisabled busyCache \<and> admits final \<longrightarrow>
             fst (set_cached ''b'' (JStr ''y'') None 60001 final)
               = Returned (map (\<lambda>i. (i, JStr ''y'')) ([7, 8] @ more)))"
    unfolding final_def by blast+
  then obtain more where more: "lockCallbacks final ''b'' = Some ([7, 8] @ more)"
    and w: "fst (set_cached ''b'' (JStr ''y'') None 60001 final)
               = Returned (map (\<lambda>i. (i, JStr ''y'')) ([7, 8] @ more))"
    using adm unfolding final_def by blast
  from more after have "[7, 8] @ more = [7, 8, 11]" unfolding final_def by (metis option.inject)
  with w have "fst (set_cached ''b'' (JStr ''y'') None 60001 final)
      = Returned [(7, JStr ''y''), (8, JStr ''y''), (11, JStr ''y'')]"
    by simp
  then have woken: "fst (set_cached ''b'' (JStr ''y'') None 60001
      (snd (run ?evs busyCache))) = Returned [(7, JStr ''y''), (8, JStr ''y''), (11, JStr ''y'')]"
    unfolding final_def .
  from tr same reg only quiet calls pending after woken show ?thesis by blast
qed

section \<open>The wait protocol\<close>

text \<open>
  For a key that is not the name of a member of \<open>Object.prototype\<close> the protocol runs as
  follows. A waiting \<open>get\<close> that misses while the key has no registration creates the empty
  registration and resolves with \<open>null\<close>; one that misses while the key has a registration
  is appended to it and stays pending; an admitted \<open>set\<close> calls every registered waiter once,
  in the order of registration, with the value written, and deletes the registration
  (\<open>set_cached_wakes_in_order\<close> above). A \<open>set\<close> that throws the capacity error wakes nobody.
\<close>

lemma get_cached_first_waiter:
  assumes "\<not> isDisabled st" and "getSync key now st = JNull" and "truthy w"
    and "lockCallbacks st key = None" and "key \<notin> set objectPrototypeKeys"
  shows "get_cached key w r now st
           = (Resolved JNull, st\<lparr>lockCallbacks := (lockCallbacks st)(key \<mapsto> [])\<rparr>)"
  using assms by (simp add: get_cached_miss lockLookup_def)

lemma get_cached_later_waiter:
  assumes "\<not> isDisabled st" and "getSync key now st = JNull" and "truthy w"
    and "lockCallbacks st key = Some callbacks"
  shows "get_cached key w r now st
           = (Pending, st\<lparr>lockCallbacks := (lockCallbacks st)(key \<mapsto> callbacks @ [r])\<rparr>)"
  using assms by (simp add: get_cached_miss lockLookup_def)

lemma set_cached_no_waiters:
  assumes "\<not> isDisabled st" and "admits st" and "lockCallbacks st key = None"
    and "key \<notin> set objectPrototypeKeys"
  shows "set_cached key v t now st
           = (Returned [],
              st\<lparr>cache := AList.update key
                    \<lparr>itemValue = v, expiredOn = jsAdd (timeValue now) (effectiveTtl t st)\<rparr>
                    (cache st)\<rparr>)"
  using assms by (simp add: set_cached_def unlockKey_def lockLookup_def)

text \<open>
  The scenario of the test of the locking logic: three waiting reads of a missing key, then
  the write, then a plain read. The first read resolves with \<open>null\<close>, the other two are
  woken by the write, in order, and the plain read gets the value.
\<close>

lemma three_readers_one_writer:
  "fst (run [(0, EGet ''testKeyLock'' (JNum (Fin 2000)) 1),
             (0, EGet ''testKeyLock'' (JNum (Fin 2000)) 2),
             (0, EGet ''testKeyLock'' (JNum (Fin 2000)) 3),
             (1000, ESet ''testKeyLock'' (JStr ''testValueLock'') None),
             (1000, EGet ''testKeyLock'' JUndefined 4)]
        (new_LocalCache None))
     = [(1, JNull), (2, JStr ''testValueLock''), (3, JStr ''testValueLock''),
        (4, JStr ''testValueLock'')]"
  by (simp add: model_defs)

text \<open>
  C2 fails for a key that names a member of \<open>Object.prototype\<close>. On a new instance nobody
  has registered for \<open>toString\<close> and the read misses, yet \<open>this.lockCallbacks[key]\<close> is the
  inherited function: the read takes the branch of an existing registration, \<open>push\<close> is not
  a function, and the promise is rejected. No registration is created and the caller is
  not told \<open>null\<close>.
\<close>

theorem get_wait_inherited_key_rejects:
  "\<not> isDisabled (new_LocalCache None)
   \<and> lockCallbacks (new_LocalCache None) ''toString'' = None
   \<and> getSync ''toString'' 0 (new_LocalCache None) = JNull
   \<and> fst (get_cached ''toString'' (JBool True) 1 0 (new_LocalCache None)) = Rejected TypeError
   \<and> lockCallbacks (snd (get_cached ''toString'' (JBool True) 1 0 (new_LocalCache None)))
        ''toString'' = None"
  by (simp add: get_cached_def getSync_def isDisabled_def new_LocalCache_def lockLookup_def
      objectPrototypeKeys_def)

section \<open>Admission\<close>

lemma set_cached_capacity_iff:
  "fst (set_cached key v t now st) = Threw MaxLimitReach \<longleftrightarrow>
     \<not> isDisabled st
     \<and> (\<exists>m. Option.bind (options st) maxNumberOfCachedKeys = Some m \<and> num_truthy m
            \<and> \<not> jsLess (Fin (of_int (size_cache st))) m)"
  by (cases "Option.bind (options st) maxNumberOfCachedKeys")
    (auto simp: set_cached_def admits_def unlockKey_not_capacity)

lemma set_cached_capacity_Fin:
  assumes "Option.bind (options st) maxNumberOfCachedKeys = Some (Fin m)"
  shows "fst (set_cached key v t now st) = Threw MaxLimitReach \<longleftrightarrow>
     \<not> isDisabled st \<and> m \<noteq> 0 \<and> m \<le> of_int (size_cache st)"
  using assms by (auto simp: set_cached_capacity_iff jsLess_Fin)

lemma set_cached_unbounded:
  assumes "Option.bind (options st) maxNumberOfCachedKeys = None
         \<or> Option.bind (options st) maxNumberOfCachedKeys = Some (Fin 0)"
    and "key \<notin> set objectPrototypeKeys \<or> lockCallbacks st key \<noteq> None"
  shows "\<exists>calls. fst (set_cached key v t now st) = Returned calls"
  using assms
  by (auto simp: set_cached_def admits_def unlockKey_def lockLookup_def
      split: option.splits)

text \<open>
  C3 fails for a key that names a member of \<open>Object.prototype\<close>. On a new instance without
  options (no cap), \<open>set("constructor", "x")\<close> stores the entry and then throws: in
  \<open>unlockKey\<close>, \<open>this.lockCallbacks[key]\<close> is the inherited function, which has no
  \<open>forEach\<close>.
\<close>

theorem set_inherited_key_throws:
  "\<not> isDisabled (new_LocalCache None)
   \<and> Option.bind (options (new_LocalCache None)) maxNumberOfCachedKeys = None
   \<and> fst (set_cached ''constructor'' (JStr ''x'') None 0 (new_LocalCache None)) = Threw TypeError
   \<and> cache (snd (set_cached ''constructor'' (JStr ''x'') None 0 (new_LocalCache None)))
       = [(''constructor'', \<lparr>itemValue = JStr ''x'', expiredOn = Fin 5000\<rparr>)]"
  by (simp add: model_defs)

section \<open>The sweep\<close>

lemma clearStep_fold_cache:
  "cache (snd (fold (clearStep now) xs (c, st)))
     = filter (\<lambda>(key, entry).
           \<not> (\<exists>e. (key, e) \<in> set xs \<and> lockLookup (lockCallbacks st) key = LUndefined
                  \<and> jsLessEq (expiredOn e) (timeValue now)))
         (cache st)"
proof (induction xs arbitrary: c st)
  case Nil
  then show ?case by simp
next
  case (Cons x xs)
  obtain k e where x: "x = (k, e)" by (cases x)
  show ?case
  proof (cases "lockLookup (lockCallbacks st) k = LUndefined
      \<and> jsLessEq (expiredOn e) (timeValue now)")
    case True
    then have "fold (clearStep now) (x # xs) (c, st)
        = fold (clearStep now) xs (c + 1, st\<lparr>cache := AList.delete k (cache st)\<rparr>)"
      by (simp add: x clearStep_def)
    then have "cache (snd (fold (clearStep now) (x # xs) (c, st)))
        = filter (\<lambda>(key, entry).
             \<not> (\<exists>e. (key, e) \<in> set xs \<and> lockLookup (lockCallbacks st) key = LUndefined
                    \<and> jsLessEq (expiredOn e) (timeValue now)))
           (filter (\<lambda>(key, entry). key \<noteq> k) (cache st))"
      by (auto simp add: Cons.IH AList.delete_eq case_prod_unfold intro!: filter_cong)
    also have "\<dots> = filter (\<lambda>(key, entry).
             \<not> (\<exists>e. (key, e) \<in> set (x # xs) \<and> lockLookup (lockCallbacks st) key = LUndefined
                    \<and> jsLessEq (expiredOn e) (timeValue now)))
           (cache st)"
      unfolding filter_filter using True by (intro filter_cong) (auto simp: x)
    finally show ?thesis .
  next
    case False
    then have "fold (clearStep now) (x # xs) (c, st) = fold (clearStep now) xs (c, st)"
      by (auto simp: x clearStep_def)
    then have "cache (snd (fold (clearStep now) (x # xs) (c, st)))
        = filter (\<lambda>(key, entry).
             \<not> (\<exists>e. (key, e) \<in> set xs \<and> lockLookup (lockCallbacks st) key = LUndefined
                    \<and> jsLessEq (expiredOn e) (timeValue now)))
           (cache st)"
      by (simp add: Cons.IH)
    also have "\<dots> = filter (\<lambda>(key, entry).
             \<not> (\<exists>e. (key, e) \<in> set (x # xs) \<and> lockLookup (lockCallbacks st) key = LUndefined
                    \<and> jsLessEq (expiredOn e) (timeValue now)))
           (cache st)"
      using False by (intro filter_cong) (auto simp: x)
    finally show ?thesis .
  qed
qed

text \<open>
  On a store with one entry per key, as a \<open>Map\<close> is, the sweep keeps the order of the entries
  and deletes exactly those with \<open>expiredOn <= now\<close> for which \<open>this.lockCallbacks[key]\<close> is
  \<open>undefined\<close>. It never writes \<open>lockCallbacks\<close>.
\<close>

lemma clear_cache:
  assumes "distinct (map fst (cache st))"
  shows "cache (clear now st)
     = filter (\<lambda>(key, entry).
           \<not> (lockLookup (lockCallbacks st) key = LUndefined
                \<and> jsLessEq (expiredOn entry) (timeValue now)))
         (cache st)"
proof -
  have "(\<not> (\<exists>e. (key, e) \<in> set (cache st) \<and> lockLookup (lockCallbacks st) key = LUndefined
                  \<and> jsLessEq (expiredOn e) (timeValue now)))
      = (\<not> (lockLookup (lockCallbacks st) key = LUndefined
                \<and> jsLessEq (expiredOn entry) (timeValue now)))"
    if "(key, entry) \<in> set (cache st)" for key entry
    using that assms by (auto dest: eq_key_imp_eq_value)
  then show ?thesis
    unfolding clear_def clearLoop_def clearStep_fold_cache
    by (intro filter_cong) auto
qed

text \<open>Every instance reached from the constructor has one entry per key.\<close>

lemma clearStep_fold_distinct:
  "distinct (map fst (cache st)) \<Longrightarrow>
     distinct (map fst (cache (snd (fold (clearStep now) xs (c, st)))))"
  by (simp add: clearStep_fold_cache distinct_map_filter)

lemma step_distinct:
  assumes "distinct (map fst (cache st))"
  shows "distinct (map fst (cache (snd (step now e st))))"
proof (cases e)
  case (ESet key v t)
  then show ?thesis
    using assms unfolding ESet snd_step_ESet by (simp add: set_cached_cache distinct_update)
next
  case (EGet key w r)
  then show ?thesis
    using assms unfolding EGet snd_step_EGet by (simp add: get_cached_cache)
next
  case EClear
  then show ?thesis using assms by (simp add: clear_def clearLoop_def clearStep_fold_distinct)
qed

lemma run_distinct:
  "distinct (map fst (cache st)) \<Longrightarrow> distinct (map fst (cache (snd (run evs st))))"
proof (induction evs arbitrary: st)
  case Nil
  then show ?case by simp
next
  case (Cons a evs)
  obtain now e where a: "a = (now, e)" by (cases a)
  show ?case
    unfolding a snd_run_Cons by (rule Cons.IH) (rule step_distinct [OF Cons.prems])
qed

lemma reachable_distinct:
  "distinct (map fst (cache (snd (run evs (new_LocalCache opts)))))"
  by (rule run_distinct) (simp add: new_LocalCache_def)

text \<open>
  C7 fails for a key that names a member of \<open>Object.prototype\<close>. The write of
  \<open>constructor\<close> with a TTL of 1 ms at time 0 stores the entry (and then throws, see above).
  Nobody waits for the key, and the entry has expired at the sweep of time 30000, yet the
  sweep keeps it: \<open>!this.lockCallbacks[key]\<close> is false for the inherited member.
\<close>

theorem sweep_keeps_inherited_key:
  "map_of (cache (snd (set_cached ''constructor'' (JStr ''x'') (Some (Fin 1)) 0
       (new_LocalCache None)))) ''constructor''
       = Some \<lparr>itemValue = JStr ''x'', expiredOn = Fin 1\<rparr>
   \<and> lockCallbacks (snd (set_cached ''constructor'' (JStr ''x'') (Some (Fin 1)) 0
       (new_LocalCache None))) ''constructor'' = None
   \<and> cache (clear 30000
        (snd (set_cached ''constructor'' (JStr ''x'') (Some (Fin 1)) 0 (new_LocalCache None))))
       = [(''constructor'', \<lparr>itemValue = JStr ''x'', expiredOn = Fin 1\<rparr>)]"
  by (simp add: model_defs)

end
